theory Spec2Isabelle
  imports Main "HOL-Library.Sublist"
begin

section \<open>JavaScript values that reach the pool\<close>

text \<open>
  The \<open>verifyUrl\<close> argument of \<open>markInvalid\<close> is tested for truthiness
  (\<open>verifyUrl || null\<close>) and may be omitted, so it is modelled as a small sum of the
  JavaScript values a caller can pass. \<open>Num\<close> carries an integer; \<open>NaN\<close> is not
  modelled.
\<close>

datatype jsval = Undefined | Null | Str string | Num int | Bool bool

fun truthy :: "jsval \<Rightarrow> bool" where
  "truthy Undefined = False"
| "truthy Null = False"
| "truthy (Str s) = (s \<noteq> [])"
| "truthy (Num n) = (n \<noteq> 0)"
| "truthy (Bool b) = b"

text \<open>The operator \<open>a || b\<close>.\<close>

definition js_or :: "jsval \<Rightarrow> jsval \<Rightarrow> jsval" where
  "js_or a b = (if truthy a then a else b)"

text \<open>A parameter with the default \<open>= null\<close>: the default applies to \<open>undefined\<close> only.\<close>

definition default_null :: "jsval \<Rightarrow> jsval" where
  "default_null v = (if v = Undefined then Null else v)"

section \<open>MockAccountManager (403 account rotation handler flow)\<close>

text \<open>
  One element of \<open>_accounts\<close>. \<open>enabled\<close> is compared with \<open>!== false\<close>, so an
  absent property (\<open>None\<close>) counts as enabled. \<open>invalidAt\<close> is \<open>None\<close> while the
  property is absent; the constructor does not create it. \<open>modelRateLimits\<close> maps a
  model identifier to the \<open>resetAt\<close> of its window.
\<close>

record account =
  email :: string
  enabled :: "bool option"
  isInvalid :: bool
  invalidReason :: "string option"
  verifyUrl :: jsval
  invalidAt :: "int option"
  modelRateLimits :: "string \<rightharpoonup> int"
  consecutiveFailures :: nat

text \<open>The entries pushed on \<open>_log\<close>, one constructor per \<open>action\<close>.\<close>

datatype log_entry =
    LogMarkInvalid string string jsval
  | LogClearInvalid string
  | LogMarkRateLimited string int string
  | LogNotifySuccess string string
  | LogNotifyFailure string string
  | LogNotifyRateLimit string string

record manager =
  accounts :: "account list"
  log :: "log_entry list"
  savedToDisk :: nat

text \<open>
  The constructor copies each given account and overwrites six of its properties;
  \<open>email\<close> and \<open>invalidAt\<close> are left as given.
\<close>

definition MockAccountManager :: "account list \<Rightarrow> manager" where
  "MockAccountManager as =
     \<lparr>accounts = map (\<lambda>a. a\<lparr>isInvalid := False, invalidReason := None, verifyUrl := Null,
                              modelRateLimits := Map.empty, consecutiveFailures := 0,
                              enabled := Some True\<rparr>) as,
      log = [], savedToDisk = 0\<rparr>"

text \<open>\<open>this._accounts.filter(a => !a.isInvalid && a.enabled !== false)\<close>; \<open>model\<close> is not read.\<close>

definition getAvailableAccounts :: "manager \<Rightarrow> string \<Rightarrow> account list" where
  "getAvailableAccounts m model =
     filter (\<lambda>a. \<not> isInvalid a \<and> enabled a \<noteq> Some False) (accounts m)"

definition getAllAccounts :: "manager \<Rightarrow> account list" where
  "getAllAccounts m = accounts m"

definition isAllAccountsInvalid :: "manager \<Rightarrow> bool" where
  "isAllAccountsInvalid m =
     (let enabled' = filter (\<lambda>a. enabled a \<noteq> Some False) (accounts m)
      in length enabled' > 0 \<and> list_all isInvalid enabled')"

text \<open>
  \<open>_accounts.find(a => a.email === email)\<close> yields the first account with that email, and
  the assignments that follow change that object in place: \<open>updateFirst\<close> rewrites the
  first matching element of the list and no other.
\<close>

fun updateFirst :: "('a \<Rightarrow> bool) \<Rightarrow> ('a \<Rightarrow> 'a) \<Rightarrow> 'a list \<Rightarrow> 'a list" where
  "updateFirst p f [] = []"
| "updateFirst p f (a # as) = (if p a then f a # as else a # updateFirst p f as)"

definition hasEmail :: "string \<Rightarrow> account \<Rightarrow> bool" where
  "hasEmail e a = (email a = e)"

text \<open>\<open>Date.now()\<close> is the argument \<open>now\<close>. The result is the returned boolean and the new state.\<close>

definition markInvalid :: "manager \<Rightarrow> string \<Rightarrow> string \<Rightarrow> jsval \<Rightarrow> int \<Rightarrow> bool \<times> manager" where
  "markInvalid m e reason verifyUrlArg now =
     (let verifyUrl' = default_null verifyUrlArg in
      case find (hasEmail e) (accounts m) of
        None \<Rightarrow> (False, m)
      | Some _ \<Rightarrow>
          (True,
           m\<lparr>accounts :=
               updateFirst (hasEmail e)
                 (\<lambda>acc. acc\<lparr>isInvalid := True, invalidReason := Some reason,
                            verifyUrl := js_or verifyUrl' Null, invalidAt := Some now\<rparr>)
                 (accounts m),
             log := log m @ [LogMarkInvalid e reason verifyUrl']\<rparr>))"

definition clearInvalid :: "manager \<Rightarrow> string \<Rightarrow> bool \<times> manager" where
  "clearInvalid m e =
     (case find (hasEmail e) (accounts m) of
        None \<Rightarrow> (False, m)
      | Some _ \<Rightarrow>
          (True,
           m\<lparr>accounts :=
               updateFirst (hasEmail e)
                 (\<lambda>acc. acc\<lparr>isInvalid := False, invalidReason := None, verifyUrl := Null\<rparr>)
                 (accounts m),
             log := log m @ [LogClearInvalid e],
             savedToDisk := savedToDisk m + 1\<rparr>))"

text \<open>The remaining methods only record the call.\<close>

definition markRateLimited :: "manager \<Rightarrow> string \<Rightarrow> int \<Rightarrow> string \<Rightarrow> manager" where
  "markRateLimited m e resetMs model = m\<lparr>log := log m @ [LogMarkRateLimited e resetMs model]\<rparr>"

definition notifySuccess :: "manager \<Rightarrow> account \<Rightarrow> string \<Rightarrow> manager" where
  "notifySuccess m a model = m\<lparr>log := log m @ [LogNotifySuccess (email a) model]\<rparr>"

definition notifyFailure :: "manager \<Rightarrow> account \<Rightarrow> string \<Rightarrow> manager" where
  "notifyFailure m a model = m\<lparr>log := log m @ [LogNotifyFailure (email a) model]\<rparr>"

definition notifyRateLimit :: "manager \<Rightarrow> account \<Rightarrow> string \<Rightarrow> manager" where
  "notifyRateLimit m a model = m\<lparr>log := log m @ [LogNotifyRateLimit (email a) model]\<rparr>"

definition saveToDisk :: "manager \<Rightarrow> manager" where
  "saveToDisk m = m\<lparr>savedToDisk := savedToDisk m + 1\<rparr>"

text \<open>
  The states a manager can be in: built by the constructor and changed by its methods.
\<close>

inductive reachable :: "manager \<Rightarrow> bool" where
  r_new: "reachable (MockAccountManager as)"
| r_markInvalid: "reachable m \<Longrightarrow> reachable (snd (markInvalid m e reason u now))"
| r_clearInvalid: "reachable m \<Longrightarrow> reachable (snd (clearInvalid m e))"
| r_markRateLimited: "reachable m \<Longrightarrow> reachable (markRateLimited m e resetMs model)"
| r_notifySuccess: "reachable m \<Longrightarrow> reachable (notifySuccess m a model)"
| r_notifyFailure: "reachable m \<Longrightarrow> reachable (notifyFailure m a model)"
| r_notifyRateLimit: "reachable m \<Longrightarrow> reachable (notifyRateLimit m a model)"
| r_saveToDisk: "reachable m \<Longrightarrow> reachable (saveToDisk m)"

text \<open>The object literal \<open>{ email: e }\<close> the tests hand to the constructor.\<close>

definition newAccount :: "string \<Rightarrow> account" where
  "newAccount e =
     \<lparr>email = e, enabled = None, isInvalid = False, invalidReason = None, verifyUrl = Undefined,
      invalidAt = None, modelRateLimits = Map.empty, consecutiveFailures = 0\<rparr>"

text \<open>
  The availability rule as the specification words it, for comparison with
  \<open>getAvailableAccounts\<close>: enabled, not invalid, and no window for the model that is
  still open at time \<open>now\<close>.
\<close>

definition spec_available :: "int \<Rightarrow> string \<Rightarrow> account \<Rightarrow> bool" where
  "spec_available now model a =
     (enabled a \<noteq> Some False \<and> isInvalid a = False \<and>
      (case modelRateLimits a model of None \<Rightarrow> True | Some resetAt \<Rightarrow> resetAt \<le> now))"

definition spec_getAvailableAccounts :: "int \<Rightarrow> manager \<Rightarrow> string \<Rightarrow> account list" where
  "spec_getAvailableAccounts now m model = filter (spec_available now model) (accounts m)"

section \<open>Error classifier\<close>

text \<open>
  Strings are lists of 8-bit characters; letter case is folded on the ASCII letters.
\<close>

definition toLowerChar :: "char \<Rightarrow> char" where
  "toLowerChar c =
     (case map_of (zip ''ABCDEFGHIJKLMNOPQRSTUVWXYZ'' ''abcdefghijklmnopqrstuvwxyz'') c of
        Some l \<Rightarrow> l
      | None \<Rightarrow> c)"

definition toLowerCase :: "string \<Rightarrow> string" where
  "toLowerCase s = map toLowerChar s"

text \<open>\<open>haystack.includes(needle)\<close>: the needle starts at some position of the haystack.\<close>

fun str_includes :: "string \<Rightarrow> string \<Rightarrow> bool" where
  "str_includes [] needle = (needle = [])"
| "str_includes (c # cs) needle = (prefix needle (c # cs) \<or> str_includes cs needle)"

text \<open>
  Modelled from the spec: the markers of \<open>isValidationRequired\<close> of
  \<open>src/cloudcode/rate-limit-state.js\<close>, which is not among the sources (only its
  tests are). The body matches when it contains one of the three markers in any letter
  case, wherever it stands in the text (free text or the reason field of a serialised
  error detail).
\<close>

definition validationMarkers :: "string list" where
  "validationMarkers = [''validation_required'', ''account_disabled'', ''user_disabled'']"

text \<open>
  Modelled from the spec: the body of \<open>isValidationRequired\<close>, missing with its
  file. A null body gives false; otherwise the lower-cased body is searched for each
  marker.
\<close>

definition isValidationRequired :: "string option \<Rightarrow> bool" where
  "isValidationRequired errorText =
     (case errorText of
        None \<Rightarrow> False
      | Some t \<Rightarrow> list_ex (str_includes (toLowerCase t)) validationMarkers)"

text \<open>
  Modelled from the spec: the error values and \<open>isAccountForbiddenError\<close> of
  \<open>src/errors.js\<close>, which is not among the sources (only its tests are). A value is
  either a plain \<open>Error\<close> with a message or an \<open>AccountForbiddenError\<close> with a message
  and the account's email. The predicate holds for the explicit kind and for a message
  that carries the marker token, matched without regard to letter case as everywhere in
  the classifier.
\<close>

datatype js_error = Error string | AccountForbiddenError string "string option"

fun message :: "js_error \<Rightarrow> string" where
  "message (Error msg) = msg"
| "message (AccountForbiddenError msg _) = msg"

text \<open>
  Modelled from the spec: the body of \<open>isAccountForbiddenError\<close>, missing with
  \<open>src/errors.js\<close>: the class test first, then the search of the message.
\<close>

definition isAccountForbiddenError :: "js_error \<Rightarrow> bool" where
  "isAccountForbiddenError err =
     (case err of
        AccountForbiddenError _ _ \<Rightarrow> True
      | Error msg \<Rightarrow> str_includes (toLowerCase msg) ''account_forbidden'')"

text \<open>
  Modelled from the spec: \<open>extractVerificationUrl\<close> of
  \<open>src/cloudcode/rate-limit-state.js\<close>, which is not among the sources (only its tests
  are). The specification leaves three things open, and they are parameters here:
  \<open>structured\<close>, the lookup of a URL in a parsed error detail; \<open>host\<close>, the text a
  verification URL starts with; \<open>isUrlChar\<close>, the characters a URL found in free text
  runs over. A null or empty input gives null; a structured URL is returned verbatim;
  otherwise the first occurrence of \<open>host\<close> is taken with the URL characters that follow
  it, and closing bracket, angle bracket, brace, quotation marks and period are trimmed
  from its end.
\<close>

definition isTrailingPunct :: "char \<Rightarrow> bool" where
  "isTrailingPunct c =
     (c = CHR '']'' \<or> c = CHR ''>'' \<or> c = CHR ''}'' \<or> c = CHR 0x22 \<or> c = CHR 0x27 \<or> c = CHR ''.'')"

text \<open>
  Modelled from the spec: the trimming step of \<open>extractVerificationUrl\<close>, which
  removes the longest run of such characters from the end of the candidate.
\<close>

definition trimTrailing :: "string \<Rightarrow> string" where
  "trimTrailing s = rev (dropWhile isTrailingPunct (rev s))"

text \<open>
  Modelled from the spec: the scan of \<open>extractVerificationUrl\<close> for the first
  occurrence of a verification URL in free text, from the left.
\<close>

fun scanUrl :: "string \<Rightarrow> (char \<Rightarrow> bool) \<Rightarrow> string \<Rightarrow> string option" where
  "scanUrl host isUrlChar [] = None"
| "scanUrl host isUrlChar (c # cs) =
     (if prefix host (c # cs)
      then Some (host @ takeWhile isUrlChar (drop (length host) (c # cs)))
      else scanUrl host isUrlChar cs)"

text \<open>
  Modelled from the spec: the body of \<open>extractVerificationUrl\<close>, missing with its
  file: null or empty input first, then the structured path, then the free-text scan.
\<close>

definition extractVerificationUrl ::
  "(string \<Rightarrow> string option) \<Rightarrow> string \<Rightarrow> (char \<Rightarrow> bool) \<Rightarrow> string option \<Rightarrow> string option" where
  "extractVerificationUrl structured host isUrlChar errorText =
     (case errorText of
        None \<Rightarrow> None
      | Some t \<Rightarrow>
          if t = [] then None
          else (case structured t of
                  Some u \<Rightarrow> Some u
                | None \<Rightarrow> map_option trimTrailing (scanUrl host isUrlChar t)))"

text \<open>The choices the tests exercise: no structured detail, Google's sign-in host, a URL ends at white space.\<close>

definition noStructured :: "string \<Rightarrow> string option" where
  "noStructured t = None"

definition googleAccounts :: string where
  "googleAccounts = ''https://accounts.google.com''"

definition nonSpace :: "char \<Rightarrow> bool" where
  "nonSpace c = (c \<noteq> CHR '' '' \<and> c \<noteq> CHR 0x0A \<and> c \<noteq> CHR 0x0D \<and> c \<noteq> CHR 0x09)"

section \<open>Concrete pools and invariants used below\<close>

text \<open>Two accounts, as most tests build them.\<close>

definition pool_ab :: manager where
  "pool_ab = MockAccountManager [newAccount ''a@test.com'', newAccount ''b@test.com'']"

text \<open>
  The pool of the test "one invalid, one disabled": the second account is switched off
  by writing its \<open>enabled\<close> property, the first is marked invalid.
\<close>

definition pool_disabled_invalid :: manager where
  "pool_disabled_invalid =
     snd (markInvalid
            (pool_ab\<lparr>accounts := (accounts pool_ab)[1 := (accounts pool_ab ! 1)\<lparr>enabled := Some False\<rparr>]\<rparr>)
            ''a@test.com'' ''Account requires verification'' Undefined 1700)"

text \<open>A pool whose only account is enabled and valid and holds a window for one model up to time 1000.\<close>

definition pool_limited :: manager where
  "pool_limited =
     \<lparr>accounts = [(newAccount ''a@test.com'')
                    \<lparr>enabled := Some True, verifyUrl := Null, modelRateLimits := [''gemini'' \<mapsto> 1000]\<rparr>],
      log = [], savedToDisk = 0\<rparr>"

text \<open>The stored \<open>verifyUrl\<close> is null or truthy.\<close>

definition urlOk :: "account \<Rightarrow> bool" where
  "urlOk a = (verifyUrl a = Null \<or> truthy (verifyUrl a))"

text \<open>The account holds no rate-limit window.\<close>

definition noLimits :: "account \<Rightarrow> bool" where
  "noLimits a = (modelRateLimits a = Map.empty)"

section \<open>Properties of the pool\<close>

subsection \<open>Finding and rewriting the first account with an email\<close>

lemma find_hasEmail_None: "find (hasEmail e) as = None \<longleftrightarrow> e \<notin> email ` set as"
  by (auto simp: find_None_iff hasEmail_def)

lemma find_present: "e \<in> email ` set as \<Longrightarrow> \<exists>a. find (hasEmail e) as = Some a"
  using find_hasEmail_None [of e as] by (cases "find (hasEmail e) as") auto

lemma find_updateFirst:
  assumes "\<And>a. p a \<Longrightarrow> p (f a)"
  shows "find p (updateFirst p f as) = map_option f (find p as)"
  using assms by (induction as) auto

lemma updateFirst_twice:
  assumes "\<And>a. p a \<Longrightarrow> p (f a)"
  shows "updateFirst p g (updateFirst p f as) = updateFirst p (g \<circ> f) as"
  using assms by (induction as) auto

lemma updateFirst_all:
  assumes "list_all P as" and "\<And>a. P a \<Longrightarrow> P (f a)"
  shows "list_all P (updateFirst p f as)"
  using assms by (induction as) auto

subsection \<open>isAllAccountsInvalid\<close>

lemma isAllAccountsInvalid_filter:
  "isAllAccountsInvalid m \<longleftrightarrow>
     (\<exists>a \<in> set (accounts m). enabled a \<noteq> Some False) \<and>
     (\<forall>a \<in> set (accounts m). enabled a \<noteq> Some False \<longrightarrow> isInvalid a)"
  by (auto simp: isAllAccountsInvalid_def Let_def list_all_iff filter_empty_conv)

text \<open>
  Claim C2. \<open>isAllAccountsInvalid()\<close> is true exactly when some account has
  \<open>enabled !== false\<close> and every such account is invalid. So it is false when no
  account is enabled, and removing the disabled accounts from the pool never changes the
  verdict: they neither count as healthy nor stand in the way of "all invalid".
\<close>

theorem isAllAccountsInvalid_iff:
  "(isAllAccountsInvalid m \<longleftrightarrow>
     (\<exists>a \<in> set (accounts m). enabled a \<noteq> Some False) \<and>
     (\<forall>a \<in> set (accounts m). enabled a \<noteq> Some False \<longrightarrow> isInvalid a)) \<and>
   ((\<forall>a \<in> set (accounts m). enabled a = Some False) \<longrightarrow> \<not> isAllAccountsInvalid m) \<and>
   isAllAccountsInvalid (m\<lparr>accounts := filter (\<lambda>a. enabled a \<noteq> Some False) (accounts m)\<rparr>)
     = isAllAccountsInvalid m"
  by (auto simp: isAllAccountsInvalid_filter)

text \<open>
  At the pool with one disabled and one invalid account the verdict is true; at the empty
  pool it is false.
\<close>

theorem isAllAccountsInvalid_iff_witness:
  "isAllAccountsInvalid pool_disabled_invalid \<and> \<not> isAllAccountsInvalid (MockAccountManager [])"
  using isAllAccountsInvalid_iff [of pool_disabled_invalid]
        isAllAccountsInvalid_iff [of "MockAccountManager []"]
  by (simp add: pool_disabled_invalid_def pool_ab_def MockAccountManager_def newAccount_def
      markInvalid_def hasEmail_def Let_def)

subsection \<open>Unknown emails\<close>

text \<open>
  Claim C8. For an email that no account of the pool carries, \<open>markInvalid\<close> and
  \<open>clearInvalid\<close> return false and hand back the state as it was: no account, no log
  entry and no save counter changes, and there is no failure branch.
\<close>

theorem mutators_unknown_email:
  assumes "e \<notin> email ` set (accounts m)"
  shows "markInvalid m e reason u now = (False, m) \<and> clearInvalid m e = (False, m)"
proof -
  from assms have "find (hasEmail e) (accounts m) = None"
    by (simp add: find_hasEmail_None)
  then show ?thesis
    by (simp add: markInvalid_def clearInvalid_def)
qed

theorem mutators_unknown_email_witness:
  "markInvalid pool_ab ''unknown@example.com'' ''Test'' Undefined 1700 = (False, pool_ab) \<and>
   clearInvalid pool_ab ''unknown@example.com'' = (False, pool_ab)"
proof -
  have h: "''unknown@example.com'' \<notin> email ` set (accounts pool_ab)"
    by (simp add: pool_ab_def MockAccountManager_def newAccount_def)
  show ?thesis using mutators_unknown_email [OF h] by simp
qed

subsection \<open>markInvalid followed by clearInvalid\<close>

text \<open>
  Claim C4 as stated does not hold: \<open>clearInvalid\<close> has no assignment to
  \<open>invalidAt\<close>. After \<open>markInvalid\<close> at time 1700 and \<open>clearInvalid\<close>, the account
  still carries \<open>invalidAt = 1700\<close>, where the claim has null.
\<close>

theorem markInvalid_clearInvalid_counterexample:
  "invalidAt (hd (accounts (snd (clearInvalid
      (snd (markInvalid (MockAccountManager [newAccount ''a@test.com'']) ''a@test.com''
              ''Account requires verification''
              (Str ''https://accounts.google.com/signin/continue?sarp=1'') 1700))
      ''a@test.com'')))) \<noteq> None"
  by (simp add: MockAccountManager_def newAccount_def markInvalid_def clearInvalid_def
      hasEmail_def default_null_def js_or_def Let_def)

text \<open>
  Claim C4, amended. For an email present in the pool, \<open>markInvalid(email, reason, url)\<close>
  followed by \<open>clearInvalid(email)\<close> returns true twice and leaves the first account
  with that email with \<open>isInvalid = false\<close>, \<open>invalidReason = null\<close>,
  \<open>verifyUrl = null\<close>, while \<open>invalidAt\<close> keeps the time written by \<open>markInvalid\<close>;
  every other account is as before.
\<close>

theorem markInvalid_clearInvalid_roundtrip:
  assumes "e \<in> email ` set (accounts m)"
  shows "fst (markInvalid m e reason u now) = True \<and>
         fst (clearInvalid (snd (markInvalid m e reason u now)) e) = True \<and>
         accounts (snd (clearInvalid (snd (markInvalid m e reason u now)) e)) =
           updateFirst (hasEmail e)
             (\<lambda>a. a\<lparr>isInvalid := False, invalidReason := None, verifyUrl := Null,
                     invalidAt := Some now\<rparr>)
             (accounts m) \<and>
         (\<exists>a. find (hasEmail e)
                 (accounts (snd (clearInvalid (snd (markInvalid m e reason u now)) e))) = Some a \<and>
              isInvalid a = False \<and> invalidReason a = None \<and> verifyUrl a = Null \<and>
              invalidAt a = Some now)"
proof -
  let ?mark = "\<lambda>acc. acc\<lparr>isInvalid := True, invalidReason := Some reason,
                 verifyUrl := js_or (default_null u) Null, invalidAt := Some now\<rparr>"
  let ?clear = "\<lambda>acc :: account. acc\<lparr>isInvalid := False, invalidReason := None, verifyUrl := Null\<rparr>"
  let ?both = "\<lambda>a :: account. a\<lparr>isInvalid := False, invalidReason := None, verifyUrl := Null,
                 invalidAt := Some now\<rparr>"
  from assms obtain a where a: "find (hasEmail e) (accounts m) = Some a"
    using find_present by blast
  have keep: "\<And>b. hasEmail e b \<Longrightarrow> hasEmail e (?mark b)"
    by (simp add: hasEmail_def)
  have m1: "markInvalid m e reason u now =
     (True, m\<lparr>accounts := updateFirst (hasEmail e) ?mark (accounts m),
              log := log m @ [LogMarkInvalid e reason (default_null u)]\<rparr>)"
    using a by (simp add: markInvalid_def Let_def)
  have f1: "find (hasEmail e) (updateFirst (hasEmail e) ?mark (accounts m)) = Some (?mark a)"
    using find_updateFirst [of "hasEmail e" ?mark "accounts m"] keep a by simp
  have comp: "?clear \<circ> ?mark = ?both"
    by (rule ext) simp
  have twice: "updateFirst (hasEmail e) ?clear (updateFirst (hasEmail e) ?mark (accounts m)) =
      updateFirst (hasEmail e) ?both (accounts m)"
    using updateFirst_twice [of "hasEmail e" ?mark ?clear "accounts m"] keep comp by simp
  have keep2: "\<And>b. hasEmail e b \<Longrightarrow> hasEmail e (?both b)"
    by (simp add: hasEmail_def)
  have f2: "find (hasEmail e) (updateFirst (hasEmail e) ?both (accounts m)) = Some (?both a)"
    using find_updateFirst [of "hasEmail e" ?both "accounts m"] keep2 a by simp
  have acc2: "accounts (snd (clearInvalid (snd (markInvalid m e reason u now)) e)) =
      updateFirst (hasEmail e) ?both (accounts m)"
    using f1 twice by (simp add: m1 clearInvalid_def)
  have r2: "fst (clearInvalid (snd (markInvalid m e reason u now)) e) = True"
    using f1 by (simp add: m1 clearInvalid_def)
  show ?thesis
    using m1 r2 acc2 f2 by simp
qed

theorem markInvalid_clearInvalid_roundtrip_witness:
  "map (\<lambda>a. (email a, isInvalid a, invalidReason a, verifyUrl a, invalidAt a))
     (accounts (snd (clearInvalid
        (snd (markInvalid pool_ab ''b@test.com'' ''Account requires verification''
                (Str ''https://accounts.google.com/signin/continue?sarp=1'') 1700))
        ''b@test.com''))) =
   [(''a@test.com'', False, None, Null, None), (''b@test.com'', False, None, Null, Some 1700)]"
proof -
  have h: "''b@test.com'' \<in> email ` set (accounts pool_ab)"
    by (simp add: pool_ab_def MockAccountManager_def newAccount_def)
  show ?thesis
    using markInvalid_clearInvalid_roundtrip [OF h, of "''Account requires verification''"
        "Str ''https://accounts.google.com/signin/continue?sarp=1''" 1700]
    by (simp add: pool_ab_def MockAccountManager_def newAccount_def hasEmail_def)
qed

subsection \<open>What the stored verifyUrl can be\<close>

lemma js_or_Null_ok: "js_or v Null = Null \<or> truthy (js_or v Null)"
  by (simp add: js_or_def)

lemma markInvalid_all:
  assumes "list_all P (accounts m)"
    and "\<And>a. P a \<Longrightarrow> P (a\<lparr>isInvalid := True, invalidReason := Some reason,
                  verifyUrl := js_or (default_null u) Null, invalidAt := Some now\<rparr>)"
  shows "list_all P (accounts (snd (markInvalid m e reason u now)))"
proof (cases "find (hasEmail e) (accounts m)")
  case None
  then show ?thesis using assms(1) by (simp add: markInvalid_def)
next
  case (Some a)
  have "list_all P (updateFirst (hasEmail e)
          (\<lambda>acc. acc\<lparr>isInvalid := True, invalidReason := Some reason,
                     verifyUrl := js_or (default_null u) Null, invalidAt := Some now\<rparr>) (accounts m))"
    using assms by (intro updateFirst_all)
  then show ?thesis using Some by (simp add: markInvalid_def Let_def)
qed

lemma clearInvalid_all:
  assumes "list_all P (accounts m)"
    and "\<And>a. P a \<Longrightarrow> P (a\<lparr>isInvalid := False, invalidReason := None, verifyUrl := Null\<rparr>)"
  shows "list_all P (accounts (snd (clearInvalid m e)))"
proof (cases "find (hasEmail e) (accounts m)")
  case None
  then show ?thesis using assms(1) by (simp add: clearInvalid_def)
next
  case (Some a)
  have "list_all P (updateFirst (hasEmail e)
          (\<lambda>acc. acc\<lparr>isInvalid := False, invalidReason := None, verifyUrl := Null\<rparr>) (accounts m))"
    using assms by (intro updateFirst_all)
  then show ?thesis using Some by (simp add: clearInvalid_def)
qed

lemma reachable_urlOk: "reachable m \<Longrightarrow> list_all urlOk (accounts m)"
proof (induction rule: reachable.induct)
  case (r_new as)
  show ?case by (simp add: MockAccountManager_def list_all_iff urlOk_def)
next
  case (r_markInvalid m e reason u now)
  then show ?case
    using js_or_Null_ok [of "default_null u"] by (intro markInvalid_all) (auto simp: urlOk_def)
next
  case (r_clearInvalid m e)
  then show ?case by (intro clearInvalid_all) (auto simp: urlOk_def)
qed (simp_all add: markRateLimited_def notifySuccess_def notifyFailure_def notifyRateLimit_def
      saveToDisk_def)

lemma reachable_noLimits: "reachable m \<Longrightarrow> list_all noLimits (accounts m)"
proof (induction rule: reachable.induct)
  case (r_new as)
  show ?case by (simp add: MockAccountManager_def list_all_iff noLimits_def)
next
  case (r_markInvalid m e reason u now)
  then show ?case by (intro markInvalid_all) (auto simp: noLimits_def)
next
  case (r_clearInvalid m e)
  then show ?case by (intro clearInvalid_all) (auto simp: noLimits_def)
qed (simp_all add: markRateLimited_def notifySuccess_def notifyFailure_def notifyRateLimit_def
      saveToDisk_def)

lemma markInvalid_falsy_found:
  assumes "find (hasEmail e) (accounts m) = Some a" and "\<not> truthy u"
  shows "find (hasEmail e) (accounts (snd (markInvalid m e reason u now))) =
      Some (a\<lparr>isInvalid := True, invalidReason := Some reason, verifyUrl := Null,
              invalidAt := Some now\<rparr>)"
proof -
  let ?mark = "\<lambda>acc. acc\<lparr>isInvalid := True, invalidReason := Some reason,
                 verifyUrl := js_or (default_null u) Null, invalidAt := Some now\<rparr>"
  have keep: "\<And>b. hasEmail e b \<Longrightarrow> hasEmail e (?mark b)"
    by (simp add: hasEmail_def)
  have "\<not> truthy (default_null u)"
    using assms(2) by (simp add: default_null_def)
  then have n: "js_or (default_null u) Null = Null"
    by (simp add: js_or_def)
  have "find (hasEmail e) (updateFirst (hasEmail e) ?mark (accounts m)) = Some (?mark a)"
    using find_updateFirst [of "hasEmail e" ?mark "accounts m"] keep assms(1) by simp
  then show ?thesis
    using assms(1) n by (simp add: markInvalid_def Let_def)
qed

text \<open>
  Claim C10. For an email present in the pool, \<open>markInvalid\<close> called with an omitted,
  null or otherwise falsy \<open>verifyUrl\<close> (the empty string included) stores null. And in
  every state a manager can reach, no account holds the empty string as \<open>verifyUrl\<close>:
  the stored value is null or truthy, for a string argument a non-empty one.
\<close>

theorem markInvalid_verifyUrl_never_empty:
  "(e \<in> email ` set (accounts m) \<and> \<not> truthy u \<longrightarrow>
      (\<exists>a. find (hasEmail e) (accounts (snd (markInvalid m e reason u now))) = Some a \<and>
           verifyUrl a = Null)) \<and>
   (reachable m \<longrightarrow>
      (\<forall>a \<in> set (accounts m).
          verifyUrl a \<noteq> Str [] \<and> (verifyUrl a = Null \<or> truthy (verifyUrl a))))"
proof (intro conjI impI)
  assume "e \<in> email ` set (accounts m) \<and> \<not> truthy u"
  then obtain a where "find (hasEmail e) (accounts m) = Some a" and "\<not> truthy u"
    using find_present by blast
  then show "\<exists>a. find (hasEmail e) (accounts (snd (markInvalid m e reason u now))) = Some a \<and>
           verifyUrl a = Null"
    using markInvalid_falsy_found [of e m a u reason now] by simp
next
  assume "reachable m"
  then have "list_all urlOk (accounts m)" by (rule reachable_urlOk)
  then show "\<forall>a \<in> set (accounts m).
      verifyUrl a \<noteq> Str [] \<and> (verifyUrl a = Null \<or> truthy (verifyUrl a))"
    by (auto simp: list_all_iff urlOk_def)
qed

text \<open>Marking the first of two accounts with the empty string, and with no URL at all.\<close>

theorem markInvalid_verifyUrl_never_empty_witness:
  "map verifyUrl (accounts (snd (markInvalid pool_ab ''a@test.com'' ''Token revoked'' (Str []) 1700))) =
     [Null, Null] \<and>
   map verifyUrl (accounts (snd (markInvalid pool_ab ''a@test.com'' ''Token revoked'' Undefined 1700))) =
     [Null, Null]"
proof -
  have h: "''a@test.com'' \<in> email ` set (accounts pool_ab)"
    by (simp add: pool_ab_def MockAccountManager_def newAccount_def)
  have r: "reachable (snd (markInvalid pool_ab ''a@test.com'' ''Token revoked'' (Str []) 1700))"
    unfolding pool_ab_def by (intro reachable.intros)
  show ?thesis
    using h r
      markInvalid_verifyUrl_never_empty [of "''a@test.com''" pool_ab "Str []" "''Token revoked''" 1700]
      markInvalid_verifyUrl_never_empty [of "''a@test.com''"
         "snd (markInvalid pool_ab ''a@test.com'' ''Token revoked'' (Str []) 1700)"]
    by (simp add: pool_ab_def MockAccountManager_def newAccount_def markInvalid_def hasEmail_def
        default_null_def js_or_def Let_def)
qed

subsection \<open>getAvailableAccounts\<close>

text \<open>
  Claim C1 as stated does not hold: the filter reads \<open>isInvalid\<close> and \<open>enabled\<close>
  and nothing else. An enabled, valid account with a window for the model open until time
  1000 is returned at time 0, where the rule of the specification leaves it out.
\<close>

theorem getAvailableAccounts_counterexample:
  "getAvailableAccounts pool_limited ''gemini'' \<noteq>
     spec_getAvailableAccounts 0 pool_limited ''gemini''"
  by (simp add: getAvailableAccounts_def spec_getAvailableAccounts_def spec_available_def
      pool_limited_def newAccount_def)

text \<open>
  Claim C1, amended. For every pool and every model, \<open>getAvailableAccounts(model)\<close>
  returns exactly the accounts with \<open>enabled !== false\<close> and \<open>isInvalid\<close> false, in
  pool order; neither the model nor \<open>modelRateLimits\<close> is consulted, so rewriting the
  windows of the accounts changes nothing else in the result. In a pool built by the
  constructor and changed only through the manager's methods no account holds a window,
  and there the result is the one the specification's rule gives.
\<close>

theorem getAvailableAccounts_exact:
  "getAvailableAccounts m model =
     filter (\<lambda>a. enabled a \<noteq> Some False \<and> isInvalid a = False) (accounts m) \<and>
   subseq (getAvailableAccounts m model) (accounts m) \<and>
   set (getAvailableAccounts m model) =
     {a \<in> set (accounts m). enabled a \<noteq> Some False \<and> isInvalid a = False} \<and>
   getAvailableAccounts
       (m\<lparr>accounts := map (\<lambda>a. a\<lparr>modelRateLimits := limits a\<rparr>) (accounts m)\<rparr>) model' =
     map (\<lambda>a. a\<lparr>modelRateLimits := limits a\<rparr>) (getAvailableAccounts m model) \<and>
   (reachable m \<longrightarrow> getAvailableAccounts m model = spec_getAvailableAccounts now m model)"
proof -
  have eq: "getAvailableAccounts m model =
     filter (\<lambda>a. enabled a \<noteq> Some False \<and> isInvalid a = False) (accounts m)"
    by (simp add: getAvailableAccounts_def conj_commute)
  have sub: "subseq (getAvailableAccounts m model) (accounts m)"
    by (simp add: getAvailableAccounts_def)
  have st: "set (getAvailableAccounts m model) =
     {a \<in> set (accounts m). enabled a \<noteq> Some False \<and> isInvalid a = False}"
    by (auto simp: getAvailableAccounts_def)
  have ind: "getAvailableAccounts
       (m\<lparr>accounts := map (\<lambda>a. a\<lparr>modelRateLimits := limits a\<rparr>) (accounts m)\<rparr>) model' =
     map (\<lambda>a. a\<lparr>modelRateLimits := limits a\<rparr>) (getAvailableAccounts m model)"
    by (simp add: getAvailableAccounts_def filter_map comp_def)
  have rch: "getAvailableAccounts m model = spec_getAvailableAccounts now m model"
    if "reachable m"
  proof -
    from that have "list_all noLimits (accounts m)"
      by (rule reachable_noLimits)
    then have "\<And>a. a \<in> set (accounts m) \<Longrightarrow>
        spec_available now model a = (\<not> isInvalid a \<and> enabled a \<noteq> Some False)"
      by (auto simp: list_all_iff noLimits_def spec_available_def)
    then show ?thesis
      unfolding getAvailableAccounts_def spec_getAvailableAccounts_def
      by (intro filter_cong) simp_all
  qed
  show ?thesis using eq sub st ind rch by blast
qed

text \<open>Of two accounts, the one marked invalid is left out; the other is returned.\<close>

theorem getAvailableAccounts_exact_witness:
  "map email (getAvailableAccounts
     (snd (markInvalid pool_ab ''a@test.com'' ''Account requires verification'' Undefined 1700))
     ''gemini'') = [''b@test.com''] \<and>
   map email (spec_getAvailableAccounts 0
     (snd (markInvalid pool_ab ''a@test.com'' ''Account requires verification'' Undefined 1700))
     ''gemini'') = [''b@test.com'']"
proof -
  have r: "reachable
     (snd (markInvalid pool_ab ''a@test.com'' ''Account requires verification'' Undefined 1700))"
    unfolding pool_ab_def by (intro reachable.intros)
  show ?thesis
    using r getAvailableAccounts_exact
      [of "snd (markInvalid pool_ab ''a@test.com'' ''Account requires verification'' Undefined 1700)"
          "''gemini''" _ _ 0]
    by (simp add: pool_ab_def MockAccountManager_def newAccount_def markInvalid_def hasEmail_def
        default_null_def js_or_def Let_def spec_getAvailableAccounts_def spec_available_def)
qed

subsection \<open>markRateLimited\<close>

text \<open>
  Claim C9 as stated does not hold: \<open>markRateLimited\<close> records the call and assigns
  nothing. After \<open>markRateLimited('a@test.com', 1000, 'gemini')\<close> the account has no
  window for that model.
\<close>

theorem markRateLimited_counterexample:
  "modelRateLimits
     (hd (getAllAccounts (markRateLimited (MockAccountManager [newAccount ''a@test.com''])
            ''a@test.com'' 1000 ''gemini'')))
     ''gemini'' \<noteq> Some 1000"
  by (simp add: markRateLimited_def MockAccountManager_def newAccount_def getAllAccounts_def)

text \<open>
  Claim C9, amended. For every pool, email, model and timestamp,
  \<open>markRateLimited(email, resetAtMs, model)\<close> appends one entry with its three arguments
  to the call log and leaves every account as it was, \<open>modelRateLimits\<close> and
  \<open>isInvalid\<close> included; the save counter does not move.
\<close>

theorem markRateLimited_only_logs:
  "accounts (markRateLimited m e resetMs model) = accounts m \<and>
   map isInvalid (accounts (markRateLimited m e resetMs model)) = map isInvalid (accounts m) \<and>
   map modelRateLimits (accounts (markRateLimited m e resetMs model)) =
     map modelRateLimits (accounts m) \<and>
   log (markRateLimited m e resetMs model) = log m @ [LogMarkRateLimited e resetMs model] \<and>
   savedToDisk (markRateLimited m e resetMs model) = savedToDisk m"
  by (simp add: markRateLimited_def)

section \<open>Properties of the classifier\<close>

subsection \<open>Searching without regard to letter case\<close>

lemma str_includes_sublist: "str_includes s n \<longleftrightarrow> sublist n s"
  by (induction s) (simp_all add: sublist_Cons_right)

lemma sublist_map_iff:
  "sublist n (map f t) \<longleftrightarrow> (\<exists>pre mid post. t = pre @ mid @ post \<and> map f mid = n)"
proof
  assume "sublist n (map f t)"
  then obtain ps ss where m: "map f t = ps @ n @ ss"
    by (auto simp: sublist_def)
  let ?k = "length ps" and ?l = "length n"
  have split: "t = take ?k t @ take ?l (drop ?k t) @ drop ?l (drop ?k t)"
    by (simp only: append_take_drop_id)
  have "map f (take ?l (drop ?k t)) = take ?l (drop ?k (map f t))"
    by (simp add: take_map drop_map)
  also have "\<dots> = n"
    by (simp add: m)
  finally show "\<exists>pre mid post. t = pre @ mid @ post \<and> map f mid = n"
    using split by blast
next
  assume "\<exists>pre mid post. t = pre @ mid @ post \<and> map f mid = n"
  then obtain pre mid post where "t = pre @ mid @ post" and "map f mid = n"
    by blast
  then have "map f t = map f pre @ n @ map f post"
    by simp
  then show "sublist n (map f t)"
    unfolding sublist_def by blast
qed

lemma includes_lower_iff:
  "str_includes (toLowerCase t) n \<longleftrightarrow>
     (\<exists>pre mid post. t = pre @ mid @ post \<and> toLowerCase mid = n)"
  unfolding toLowerCase_def str_includes_sublist by (rule sublist_map_iff)

lemma lower_markers:
  "toLowerCase ''VALIDATION_REQUIRED'' = ''validation_required''"
  "toLowerCase ''ACCOUNT_DISABLED'' = ''account_disabled''"
  "toLowerCase ''USER_DISABLED'' = ''user_disabled''"
  "toLowerCase ''ACCOUNT_FORBIDDEN'' = ''account_forbidden''"
  by (simp_all add: toLowerCase_def toLowerChar_def)

subsection \<open>isValidationRequired\<close>

text \<open>The bodies of the repository's tests, with the verdicts the tests expect.\<close>

lemma isValidationRequired_tests:
  \<open>isValidationRequired (Some ''{"error":{"code":403,"message":"VALIDATION_REQUIRED: Please complete account validation","status":"PERMISSION_DENIED"}}'')\<close>
  \<open>isValidationRequired (Some ''{"error":{"code":403,"message":"account_disabled: This account has been disabled"}}'')\<close>
  \<open>isValidationRequired (Some ''{"error":{"code":403,"message":"user_disabled: User account is disabled"}}'')\<close>
  \<open>isValidationRequired (Some ''{"error":{"code":403,"message":"Request had insufficient authentication scopes.","status":"PERMISSION_DENIED","details":[{"@type":"type.googleapis.com/google.rpc.ErrorInfo","reason":"VALIDATION_REQUIRED","domain":"googleapis.com"}]}}'')\<close>
  \<open>isValidationRequired (Some ''Validation_Required'')\<close>
  \<open>isValidationRequired (Some ''ACCOUNT_DISABLED'')\<close>
  \<open>isValidationRequired (Some ''User_Disabled'')\<close>
  \<open>\<not> isValidationRequired (Some ''{"error":{"code":403,"message":"Request had insufficient authentication scopes.","status":"PERMISSION_DENIED"}}'')\<close>
  \<open>\<not> isValidationRequired (Some ''{"error":{"code":403,"message":"Forbidden: some generic error"}}'')\<close>
  \<open>\<not> isValidationRequired (Some ''{"error":{"code":403,"message":"Access denied for this account"}}'')\<close>
  \<open>\<not> isValidationRequired (Some ''{"error":{"code":403,"message":"The caller does not have permission","status":"PERMISSION_DENIED"}}'')\<close>
  \<open>\<not> isValidationRequired (Some ''{"error":{"code":403,"message":"Forbidden","status":"FORBIDDEN"}}'')\<close>
  \<open>\<not> isValidationRequired (Some ''invalid_grant: Token has been expired or revoked'')\<close>
  \<open>\<not> isValidationRequired (Some [])\<close>
  \<open>\<not> isValidationRequired None\<close>
  by (simp_all add: isValidationRequired_def validationMarkers_def toLowerCase_def toLowerChar_def)

text \<open>
  Claim C3. \<open>isValidationRequired\<close> returns true exactly when the body is a text in
  which "VALIDATION_REQUIRED", "ACCOUNT_DISABLED" or "USER_DISABLED" occurs in some
  letter case, at any place of the text (free text or a serialised reason field). A body
  with no such occurrence, such as a generic "Forbidden", "Permission denied" or
  "Access denied" answer, gives false, and so does a null body.
\<close>

theorem isValidationRequired_iff:
  "isValidationRequired body \<longleftrightarrow>
     (\<exists>t pre mid post. body = Some t \<and> t = pre @ mid @ post \<and>
        (toLowerCase mid = toLowerCase ''VALIDATION_REQUIRED'' \<or>
         toLowerCase mid = toLowerCase ''ACCOUNT_DISABLED'' \<or>
         toLowerCase mid = toLowerCase ''USER_DISABLED''))"
proof (cases body)
  case None
  then show ?thesis by (simp add: isValidationRequired_def)
next
  case (Some t)
  have "isValidationRequired (Some t) \<longleftrightarrow>
      str_includes (toLowerCase t) ''validation_required'' \<or>
      str_includes (toLowerCase t) ''account_disabled'' \<or>
      str_includes (toLowerCase t) ''user_disabled''"
    by (simp add: isValidationRequired_def validationMarkers_def)
  also have "\<dots> \<longleftrightarrow> (\<exists>pre mid post. t = pre @ mid @ post \<and>
        (toLowerCase mid = ''validation_required'' \<or>
         toLowerCase mid = ''account_disabled'' \<or>
         toLowerCase mid = ''user_disabled''))"
    unfolding includes_lower_iff by blast
  finally show ?thesis
    using Some by (simp add: lower_markers)
qed

text \<open>
  A mixed-case marker inside a message is detected, and the generic "Forbidden" body has
  no place where a marker stands.
\<close>

theorem isValidationRequired_iff_witness:
  \<open>isValidationRequired (Some (''403 '' @ ''Validation_Required'' @ '': Please verify'')) \<and>
   \<not> (\<exists>pre mid post.
        ''{"error":{"code":403,"message":"Forbidden","status":"FORBIDDEN"}}'' = pre @ mid @ post \<and>
        (toLowerCase mid = toLowerCase ''VALIDATION_REQUIRED'' \<or>
         toLowerCase mid = toLowerCase ''ACCOUNT_DISABLED'' \<or>
         toLowerCase mid = toLowerCase ''USER_DISABLED''))\<close>
proof -
  have a: "toLowerCase ''Validation_Required'' = toLowerCase ''VALIDATION_REQUIRED''"
    by (simp add: toLowerCase_def toLowerChar_def)
  have b: \<open>\<not> isValidationRequired (Some ''{"error":{"code":403,"message":"Forbidden","status":"FORBIDDEN"}}'')\<close>
    by (simp add: isValidationRequired_def validationMarkers_def toLowerCase_def toLowerChar_def)
  have c: "isValidationRequired (Some (''403 '' @ ''Validation_Required'' @ '': Please verify''))"
    using a isValidationRequired_iff [of "Some (''403 '' @ ''Validation_Required'' @ '': Please verify'')"]
    by blast
  show ?thesis
    using b c isValidationRequired_iff
      [of \<open>Some ''{"error":{"code":403,"message":"Forbidden","status":"FORBIDDEN"}}''\<close>]
    by blast
qed

subsection \<open>isAccountForbiddenError\<close>

text \<open>The error values of the repository's tests, with the verdicts the tests expect.\<close>

lemma isAccountForbiddenError_tests:
  "isAccountForbiddenError (AccountForbiddenError ''Test'' None)"
  "isAccountForbiddenError (AccountForbiddenError ''403 VALIDATION_REQUIRED'' (Some ''a@test.com''))"
  "isAccountForbiddenError (Error ''ACCOUNT_FORBIDDEN: validation required'')"
  "\<not> isAccountForbiddenError (Error ''403 VALIDATION_REQUIRED: Please complete validation'')"
  "\<not> isAccountForbiddenError (Error ''API error 403: PERMISSION_DENIED'')"
  "\<not> isAccountForbiddenError (Error ''API error 403: Forbidden'')"
  "\<not> isAccountForbiddenError (Error ''429 RESOURCE_EXHAUSTED'')"
  "\<not> isAccountForbiddenError (Error ''429 RESOURCE_EXHAUSTED: quota exceeded'')"
  "\<not> isAccountForbiddenError (Error ''AUTH_INVALID: token expired'')"
  "\<not> isAccountForbiddenError (Error ''AUTH_INVALID: invalid grant'')"
  "\<not> isAccountForbiddenError (Error ''API error 500: Internal server error'')"
  "\<not> isAccountForbiddenError (Error ''Something went wrong'')"
  by (simp_all add: isAccountForbiddenError_def toLowerCase_def toLowerChar_def)

text \<open>
  Claim C7. \<open>isAccountForbiddenError\<close> returns true only for a value built as an
  \<open>AccountForbiddenError\<close> or for one whose message carries the marker token
  ACCOUNT_FORBIDDEN (in some letter case), and for those it does return true. Every other
  plain error, whatever its message says about 403, forbidden, permission denied,
  VALIDATION_REQUIRED, rate limits or authentication, gives false.
\<close>

theorem isAccountForbiddenError_iff:
  "isAccountForbiddenError err \<longleftrightarrow>
     (\<exists>msg acct. err = AccountForbiddenError msg acct) \<or>
     (\<exists>pre mid post. message err = pre @ mid @ post \<and>
        toLowerCase mid = toLowerCase ''ACCOUNT_FORBIDDEN'')"
proof (cases err)
  case (Error msg)
  then show ?thesis
    by (simp add: isAccountForbiddenError_def includes_lower_iff lower_markers)
next
  case (AccountForbiddenError msg acct)
  then show ?thesis
    by (simp add: isAccountForbiddenError_def)
qed

text \<open>
  The explicit kind and a message with the token are accepted; the generic 403 message is
  a plain error in which the token stands nowhere.
\<close>

theorem isAccountForbiddenError_iff_witness:
  "isAccountForbiddenError (AccountForbiddenError ''Test forbidden'' (Some ''test@example.com'')) \<and>
   isAccountForbiddenError (Error (''ACCOUNT_FORBIDDEN'' @ '': validation required'')) \<and>
   \<not> (\<exists>pre mid post. ''API error 403: Forbidden'' = pre @ mid @ post \<and>
        toLowerCase mid = toLowerCase ''ACCOUNT_FORBIDDEN'')"
proof -
  have a: "isAccountForbiddenError (AccountForbiddenError ''Test forbidden'' (Some ''test@example.com''))"
    using isAccountForbiddenError_iff
      [of "AccountForbiddenError ''Test forbidden'' (Some ''test@example.com'')"]
    by blast
  have "message (Error (''ACCOUNT_FORBIDDEN'' @ '': validation required'')) =
      [] @ ''ACCOUNT_FORBIDDEN'' @ '': validation required''"
    by simp
  then have b: "isAccountForbiddenError (Error (''ACCOUNT_FORBIDDEN'' @ '': validation required''))"
    using isAccountForbiddenError_iff [of "Error (''ACCOUNT_FORBIDDEN'' @ '': validation required'')"]
    by blast
  have n: "\<not> isAccountForbiddenError (Error ''API error 403: Forbidden'')"
    by (simp add: isAccountForbiddenError_def toLowerCase_def toLowerChar_def)
  have c: "\<not> (\<exists>pre mid post. ''API error 403: Forbidden'' = pre @ mid @ post \<and>
        toLowerCase mid = toLowerCase ''ACCOUNT_FORBIDDEN'')"
    using n isAccountForbiddenError_iff [of "Error ''API error 403: Forbidden''"]
    by simp
  show ?thesis using a b c by blast
qed

subsection \<open>extractVerificationUrl\<close>

lemma trimTrailing_split:
  "s = trimTrailing s @ rev (takeWhile isTrailingPunct (rev s))"
proof -
  have "trimTrailing s @ rev (takeWhile isTrailingPunct (rev s)) =
      rev (takeWhile isTrailingPunct (rev s) @ dropWhile isTrailingPunct (rev s))"
    by (simp only: trimTrailing_def rev_append)
  also have "\<dots> = s"
    by simp
  finally show ?thesis by simp
qed

lemma trimTrailing_removed_punct:
  "list_all isTrailingPunct (rev (takeWhile isTrailingPunct (rev s)))"
  by (auto simp: list_all_iff dest: set_takeWhileD)

lemma trimTrailing_last:
  "trimTrailing s = [] \<or> \<not> isTrailingPunct (last (trimTrailing s))"
proof (cases "dropWhile isTrailingPunct (rev s)")
  case Nil
  then show ?thesis by (simp add: trimTrailing_def)
next
  case (Cons c cs)
  then have "\<not> isTrailingPunct c"
    using hd_dropWhile [of isTrailingPunct "rev s"] by simp
  then show ?thesis using Cons by (simp add: trimTrailing_def)
qed

lemma trimTrailing_keeps:
  assumes "s = p @ c # q" and "\<not> isTrailingPunct c"
  shows "prefix (p @ [c]) (trimTrailing s)"
proof -
  have "rev s = rev q @ c # rev p"
    using assms(1) by simp
  then have "dropWhile isTrailingPunct (rev s) = dropWhile isTrailingPunct (rev q) @ c # rev p"
    using assms(2) by (simp add: dropWhile_append3)
  then have "trimTrailing s = (p @ [c]) @ rev (dropWhile isTrailingPunct (rev q))"
    by (simp add: trimTrailing_def)
  then show ?thesis
    by (metis prefixI)
qed

lemma scanUrl_None:
  "host \<noteq> [] \<Longrightarrow> scanUrl host isUrlChar t = None \<longleftrightarrow> \<not> sublist host t"
  by (induction t) (auto simp: sublist_Cons_right)

text \<open>The texts of the repository's tests that carry no structured detail.\<close>

lemma extractVerificationUrl_tests:
  \<open>extractVerificationUrl noStructured googleAccounts nonSpace
     (Some ''Visit [https://accounts.google.com/signin/continue?sarp=1&scc=1] to verify'') =
   Some ''https://accounts.google.com/signin/continue?sarp=1&scc=1''\<close>
  \<open>extractVerificationUrl noStructured googleAccounts nonSpace
     (Some ''Visit <https://accounts.google.com/signin/continue?sarp=1&scc=1> to verify'') =
   Some ''https://accounts.google.com/signin/continue?sarp=1&scc=1''\<close>
  \<open>extractVerificationUrl noStructured googleAccounts nonSpace
     (Some ''{"url":"https://accounts.google.com/signin/continue?sarp=1&scc=1"}'') =
   Some ''https://accounts.google.com/signin/continue?sarp=1&scc=1''\<close>
  \<open>extractVerificationUrl noStructured googleAccounts nonSpace
     (Some ''Visit https://accounts.google.com/signin/continue?sarp=1&scc=1&continue=https://aistudio.google.com to verify'') =
   Some ''https://accounts.google.com/signin/continue?sarp=1&scc=1&continue=https://aistudio.google.com''\<close>
  \<open>extractVerificationUrl noStructured googleAccounts nonSpace
     (Some ''403 VALIDATION_REQUIRED: Visit https://accounts.google.com/signin/continue?sarp=1&scc=1&otp=abc123 to verify'') =
   Some ''https://accounts.google.com/signin/continue?sarp=1&scc=1&otp=abc123''\<close>
  \<open>extractVerificationUrl noStructured googleAccounts nonSpace
     (Some ''{"error":{"code":403,"message":"Generic permission denied","status":"PERMISSION_DENIED"}}'') = None\<close>
  \<open>extractVerificationUrl noStructured googleAccounts nonSpace (Some []) = None\<close>
  \<open>extractVerificationUrl noStructured googleAccounts nonSpace None = None\<close>
  by (simp_all add: extractVerificationUrl_def trimTrailing_def isTrailingPunct_def
      noStructured_def googleAccounts_def nonSpace_def)

lemma prefix_in_longer:
  assumes "prefix xs (ys @ zs)" and "length xs \<le> length ys"
  shows "prefix xs ys"
proof -
  from assms(1) have "xs = take (length xs) (ys @ zs)"
    by (metis prefix_def append_eq_conv_conj)
  then have "xs = take (length xs) ys"
    using assms(2) by simp
  then show ?thesis
    by (metis take_is_prefix)
qed

text \<open>
  The scan stops at the first place where the host stands: when the host does not begin
  anywhere inside \<open>pre\<close>, the candidate of \<open>pre @ host @ after\<close> is the host with the
  URL characters at the head of \<open>after\<close>.
\<close>

lemma scanUrl_first:
  assumes "host \<noteq> []" and "\<not> sublist host (pre @ butlast host)"
  shows "scanUrl host isUrlChar (pre @ host @ after) = Some (host @ takeWhile isUrlChar after)"
  using assms(2)
proof (induction pre)
  case Nil
  from assms(1) obtain c cs where h: "host = c # cs"
    by (cases host) auto
  have "prefix host (host @ after)" by simp
  then show ?case
    by (simp add: h)
next
  case (Cons x pre)
  have np: "\<not> prefix host ((x # pre) @ host @ after)"
  proof
    assume p: "prefix host ((x # pre) @ host @ after)"
    have "butlast host @ [last host] = host"
      using assms(1) by simp
    then have "(x # pre) @ host @ after = ((x # pre) @ butlast host) @ (last host # after)"
      by (metis append.assoc append_Cons append_Nil)
    with p have "prefix host (((x # pre) @ butlast host) @ (last host # after))"
      by metis
    moreover have "length host \<le> length ((x # pre) @ butlast host)"
      using assms(1) by simp
    ultimately have "prefix host ((x # pre) @ butlast host)"
      by (rule prefix_in_longer)
    then have "sublist host ((x # pre) @ butlast host)"
      by (rule prefix_imp_sublist)
    with Cons.prems show False by simp
  qed
  have "\<not> sublist host (pre @ butlast host)"
    using Cons.prems by (simp add: sublist_Cons_right)
  then have "scanUrl host isUrlChar (pre @ host @ after) = Some (host @ takeWhile isUrlChar after)"
    by (rule Cons.IH)
  then show ?case
    using np by simp
qed

lemma takeWhile_body:
  assumes "list_all isUrlChar body" and "rest = [] \<or> \<not> isUrlChar (hd rest)"
  shows "takeWhile isUrlChar (body @ rest) = body"
proof (cases rest)
  case Nil
  then show ?thesis using assms(1) by (simp add: list_all_iff)
next
  case (Cons r rs)
  then have "\<not> isUrlChar r" using assms(2) by simp
  then show ?thesis using assms(1) Cons by (simp add: list_all_iff takeWhile_tail)
qed

lemma trimTrailing_exact:
  assumes "list_all isTrailingPunct junk" and "url = [] \<or> \<not> isTrailingPunct (last url)"
  shows "trimTrailing (url @ junk) = url"
proof -
  have "\<And>c. c \<in> set (rev junk) \<Longrightarrow> isTrailingPunct c"
    using assms(1) by (simp add: list_all_iff)
  then have j: "dropWhile isTrailingPunct (rev junk @ rev url) = dropWhile isTrailingPunct (rev url)"
    by (rule dropWhile_append2)
  have "dropWhile isTrailingPunct (rev url) = rev url"
  proof (cases url rule: rev_cases)
    case Nil
    then show ?thesis by simp
  next
    case (snoc us c)
    then show ?thesis using assms(2) by simp
  qed
  with j show ?thesis by (simp add: trimTrailing_def)
qed

lemma extract_free_text:
  assumes "structured t = None" and "host \<noteq> []" and "t = pre @ host @ body @ rest"
    and "\<not> sublist host (pre @ butlast host)"
    and "list_all isUrlChar body" and "rest = [] \<or> \<not> isUrlChar (hd rest)"
    and "host @ body = url @ junk" and "list_all isTrailingPunct junk"
    and "url = [] \<or> \<not> isTrailingPunct (last url)"
  shows "extractVerificationUrl structured host isUrlChar (Some t) = Some url"
proof -
  have "scanUrl host isUrlChar t = Some (host @ takeWhile isUrlChar (body @ rest))"
    unfolding assms(3) using assms(2,4) by (rule scanUrl_first)
  then have "scanUrl host isUrlChar t = Some (url @ junk)"
    using takeWhile_body [OF assms(5,6)] assms(7) by simp
  moreover have "t \<noteq> []"
    using assms(2,3) by simp
  ultimately show ?thesis
    using assms(1) trimTrailing_exact [OF assms(8,9)]
    by (simp add: extractVerificationUrl_def)
qed

lemma extract_None_iff:
  assumes "structured t = None" and "host \<noteq> []"
  shows "extractVerificationUrl structured host isUrlChar (Some t) = None \<longleftrightarrow> \<not> sublist host t"
  using assms scanUrl_None [of host isUrlChar t]
  by (cases t) (auto simp: extractVerificationUrl_def)

lemma extract_trimmed_shape:
  assumes "structured t = None"
    and "extractVerificationUrl structured host isUrlChar (Some t) = Some u"
  shows "\<exists>cand trimmed.
          scanUrl host isUrlChar t = Some cand \<and> cand = u @ trimmed \<and>
          list_all isTrailingPunct trimmed \<and>
          (u = [] \<or> \<not> isTrailingPunct (last u)) \<and>
          (\<forall>p c q. cand = p @ c # q \<and> \<not> isTrailingPunct c \<longrightarrow> prefix (p @ [c]) u)"
proof -
  from assms obtain cand where c: "scanUrl host isUrlChar t = Some cand"
    and u: "u = trimTrailing cand"
    by (auto simp: extractVerificationUrl_def split: if_splits)
  have "cand = u @ rev (takeWhile isTrailingPunct (rev cand))"
    using trimTrailing_split [of cand] u by simp
  moreover have "list_all isTrailingPunct (rev (takeWhile isTrailingPunct (rev cand)))"
    by (rule trimTrailing_removed_punct)
  moreover have "u = [] \<or> \<not> isTrailingPunct (last u)"
    using trimTrailing_last [of cand] u by simp
  moreover have "\<forall>p c q. cand = p @ c # q \<and> \<not> isTrailingPunct c \<longrightarrow> prefix (p @ [c]) u"
    using trimTrailing_keeps u by blast
  ultimately show ?thesis
    using c by blast
qed

text \<open>
  Claim C6. \<open>extractVerificationUrl\<close> returns null for a null and for an empty input,
  and, with no structured URL, returns null exactly when the verification host does not
  occur in the text. When the host does occur, it returns a URL: if the first occurrence
  of the host is followed by the URL characters \<open>body\<close>, and host and body together are
  \<open>url\<close> followed by a run \<open>junk\<close> of closing bracket, angle bracket, brace, quotation
  mark and period characters, where \<open>url\<close> does not end in such a character, then the
  result is \<open>url\<close>: the run at the end is stripped and nothing else, so a dot inside the
  URL (as in a nested \<open>continue=\<close> address) stays. Whatever URL is returned from free
  text is the candidate without such a run: it does not end in one of these characters
  and keeps every character of the candidate up to the last one not of this kind.
\<close>

theorem extractVerificationUrl_trims:
  "extractVerificationUrl structured host isUrlChar None = None \<and>
   extractVerificationUrl structured host isUrlChar (Some []) = None \<and>
   (structured t = None \<and> host \<noteq> [] \<longrightarrow>
      (extractVerificationUrl structured host isUrlChar (Some t) = None \<longleftrightarrow>
         \<not> sublist host t)) \<and>
   (structured t = None \<and> host \<noteq> [] \<and> t = pre @ host @ body @ rest \<and>
    \<not> sublist host (pre @ butlast host) \<and>
    list_all isUrlChar body \<and> (rest = [] \<or> \<not> isUrlChar (hd rest)) \<and>
    host @ body = url @ junk \<and> list_all isTrailingPunct junk \<and>
    (url = [] \<or> \<not> isTrailingPunct (last url)) \<longrightarrow>
      extractVerificationUrl structured host isUrlChar (Some t) = Some url) \<and>
   (structured t = None \<and> extractVerificationUrl structured host isUrlChar (Some t) = Some u \<longrightarrow>
      (\<exists>cand trimmed.
          scanUrl host isUrlChar t = Some cand \<and> cand = u @ trimmed \<and>
          list_all isTrailingPunct trimmed \<and>
          (u = [] \<or> \<not> isTrailingPunct (last u)) \<and>
          (\<forall>p c q. cand = p @ c # q \<and> \<not> isTrailingPunct c \<longrightarrow> prefix (p @ [c]) u)))"
proof (intro conjI impI)
  show "extractVerificationUrl structured host isUrlChar None = None"
    by (simp add: extractVerificationUrl_def)
  show "extractVerificationUrl structured host isUrlChar (Some []) = None"
    by (simp add: extractVerificationUrl_def)
next
  assume "structured t = None \<and> host \<noteq> []"
  then show "extractVerificationUrl structured host isUrlChar (Some t) = None \<longleftrightarrow>
         \<not> sublist host t"
    using extract_None_iff [of structured t host isUrlChar] by blast
next
  assume "structured t = None \<and> host \<noteq> [] \<and> t = pre @ host @ body @ rest \<and>
    \<not> sublist host (pre @ butlast host) \<and>
    list_all isUrlChar body \<and> (rest = [] \<or> \<not> isUrlChar (hd rest)) \<and>
    host @ body = url @ junk \<and> list_all isTrailingPunct junk \<and>
    (url = [] \<or> \<not> isTrailingPunct (last url))"
  then show "extractVerificationUrl structured host isUrlChar (Some t) = Some url"
    using extract_free_text [of structured t host pre body rest isUrlChar url junk] by blast
next
  assume "structured t = None \<and>
    extractVerificationUrl structured host isUrlChar (Some t) = Some u"
  then show "\<exists>cand trimmed.
          scanUrl host isUrlChar t = Some cand \<and> cand = u @ trimmed \<and>
          list_all isTrailingPunct trimmed \<and>
          (u = [] \<or> \<not> isTrailingPunct (last u)) \<and>
          (\<forall>p c q. cand = p @ c # q \<and> \<not> isTrailingPunct c \<longrightarrow> prefix (p @ [c]) u)"
    using extract_trimmed_shape [of structured t host isUrlChar u] by blast
qed

text \<open>
  A URL quoted inside a JSON object is returned without the quotation mark and the brace
  after it; a URL with a nested address and a full stop after it keeps its inner dots and
  loses the full stop; a text without the host gives null.
\<close>

theorem extractVerificationUrl_trims_witness:
  \<open>extractVerificationUrl noStructured googleAccounts nonSpace
     (Some ''{"url":"https://accounts.google.com/signin/continue?sarp=1&scc=1"}'') =
     Some ''https://accounts.google.com/signin/continue?sarp=1&scc=1'' \<and>
   extractVerificationUrl noStructured googleAccounts nonSpace
     (Some ''Visit https://accounts.google.com/signin/continue?continue=https://aistudio.google.com. Thanks'') =
     Some ''https://accounts.google.com/signin/continue?continue=https://aistudio.google.com'' \<and>
   extractVerificationUrl noStructured googleAccounts nonSpace
     (Some ''Generic permission denied'') = None\<close>
proof -
  have h1: \<open>noStructured ''{"url":"https://accounts.google.com/signin/continue?sarp=1&scc=1"}'' = None \<and>
      googleAccounts \<noteq> [] \<and>
      ''{"url":"https://accounts.google.com/signin/continue?sarp=1&scc=1"}'' =
        ''{"url":"'' @ googleAccounts @ ''/signin/continue?sarp=1&scc=1"}'' @ [] \<and>
      \<not> sublist googleAccounts (''{"url":"'' @ butlast googleAccounts) \<and>
      list_all nonSpace ''/signin/continue?sarp=1&scc=1"}'' \<and>
      ([] = [] \<or> \<not> nonSpace (hd [])) \<and>
      googleAccounts @ ''/signin/continue?sarp=1&scc=1"}'' =
        ''https://accounts.google.com/signin/continue?sarp=1&scc=1'' @ ''"}'' \<and>
      list_all isTrailingPunct ''"}'' \<and>
      (''https://accounts.google.com/signin/continue?sarp=1&scc=1'' = [] \<or>
       \<not> isTrailingPunct (last ''https://accounts.google.com/signin/continue?sarp=1&scc=1''))\<close>
    by (simp add: noStructured_def googleAccounts_def nonSpace_def isTrailingPunct_def
        str_includes_sublist [symmetric])
  have h2: \<open>noStructured ''Visit https://accounts.google.com/signin/continue?continue=https://aistudio.google.com. Thanks'' = None \<and>
      googleAccounts \<noteq> [] \<and>
      ''Visit https://accounts.google.com/signin/continue?continue=https://aistudio.google.com. Thanks'' =
        ''Visit '' @ googleAccounts @ ''/signin/continue?continue=https://aistudio.google.com.'' @ '' Thanks'' \<and>
      \<not> sublist googleAccounts (''Visit '' @ butlast googleAccounts) \<and>
      list_all nonSpace ''/signin/continue?continue=https://aistudio.google.com.'' \<and>
      ('' Thanks'' = [] \<or> \<not> nonSpace (hd '' Thanks'')) \<and>
      googleAccounts @ ''/signin/continue?continue=https://aistudio.google.com.'' =
        ''https://accounts.google.com/signin/continue?continue=https://aistudio.google.com'' @ ''.'' \<and>
      list_all isTrailingPunct ''.'' \<and>
      (''https://accounts.google.com/signin/continue?continue=https://aistudio.google.com'' = [] \<or>
       \<not> isTrailingPunct (last ''https://accounts.google.com/signin/continue?continue=https://aistudio.google.com''))\<close>
    by (simp add: noStructured_def googleAccounts_def nonSpace_def isTrailingPunct_def
        str_includes_sublist [symmetric])
  have "\<not> str_includes ''Generic permission denied'' googleAccounts"
    by (simp add: googleAccounts_def)
  then have h3: "noStructured ''Generic permission denied'' = None \<and> googleAccounts \<noteq> [] \<and>
      \<not> sublist googleAccounts ''Generic permission denied''"
    by (simp add: str_includes_sublist noStructured_def googleAccounts_def)
  have first: \<open>extractVerificationUrl noStructured googleAccounts nonSpace
     (Some ''{"url":"https://accounts.google.com/signin/continue?sarp=1&scc=1"}'') =
     Some ''https://accounts.google.com/signin/continue?sarp=1&scc=1''\<close>
    using h1 extractVerificationUrl_trims
      [where structured = noStructured and host = googleAccounts and isUrlChar = nonSpace
         and t = \<open>''{"url":"https://accounts.google.com/signin/continue?sarp=1&scc=1"}''\<close>
         and pre = \<open>''{"url":"''\<close>
         and body = \<open>''/signin/continue?sarp=1&scc=1"}''\<close>
         and rest = "[]"
         and url = \<open>''https://accounts.google.com/signin/continue?sarp=1&scc=1''\<close>
         and junk = \<open>''"}''\<close>]
    by blast
  have second: \<open>extractVerificationUrl noStructured googleAccounts nonSpace
     (Some ''Visit https://accounts.google.com/signin/continue?continue=https://aistudio.google.com. Thanks'') =
     Some ''https://accounts.google.com/signin/continue?continue=https://aistudio.google.com''\<close>
    using h2 extractVerificationUrl_trims
      [where structured = noStructured and host = googleAccounts and isUrlChar = nonSpace
         and t = \<open>''Visit https://accounts.google.com/signin/continue?continue=https://aistudio.google.com. Thanks''\<close>
         and pre = \<open>''Visit ''\<close>
         and body = \<open>''/signin/continue?continue=https://aistudio.google.com.''\<close>
         and rest = \<open>'' Thanks''\<close>
         and url = \<open>''https://accounts.google.com/signin/continue?continue=https://aistudio.google.com''\<close>
         and junk = \<open>''.''\<close>]
    by blast
  have third: "extractVerificationUrl noStructured googleAccounts nonSpace
     (Some ''Generic permission denied'') = None"
    using h3 extractVerificationUrl_trims
      [where structured = noStructured and host = googleAccounts and isUrlChar = nonSpace
         and t = "''Generic permission denied''"]
    by blast
  show ?thesis using first second third by blast
qed

end
